theory Spec2Isabelle
  imports Main
begin

section \<open>Text and errors\<close>

text \<open>
  A Python \<open>str\<close> is a sequence of Unicode code points; it is modelled as the list of
  their numbers, so that \<open>"5'990.00 \<dots>"\<close> followed by Cyrillic letters is a value of
  the model. \<open>ascii\<close> reads an ASCII literal into that type.
\<close>

type_synonym pystr = "nat list"

definition ascii :: "string \<Rightarrow> pystr" where
  "ascii s = map of_char s"

text \<open>
  The exceptions the modelled functions let escape: \<open>ValueError\<close> is what \<open>int\<close> raises on
  text that is no integer literal and what \<open>range\<close> raises on a zero step (the
  specification calls them ParseError and InvalidArgument); \<open>HTTPError\<close> is what
  \<open>raise_for_status\<close> raises inside a page fetch.
\<close>

datatype error = ValueError | HTTPError

section \<open>seller.price_conversion\<close>

text \<open>
  \<^verbatim>\<open>return re.sub("[^0-9]", "", price.split(".")[0])\<close>

  \<open>py_split s sep\<close> is \<open>s.split(sep)\<close> for a one-character separator: the pieces between
  the occurrences of \<open>sep\<close>, never an empty list. \<open>re_sub_non_digit\<close> is the substitution
  of the empty string for every match of the class \<open>[^0-9]\<close>, which matches any one code
  point outside \<open>0\<close>..\<open>9\<close>, the line feed included.
\<close>

fun py_split :: "pystr \<Rightarrow> nat \<Rightarrow> pystr list" where
  "py_split [] sep = [[]]"
| "py_split (c # cs) sep =
     (if c = sep then [] # py_split cs sep
      else (c # hd (py_split cs sep)) # tl (py_split cs sep))"

definition is_ascii_digit :: "nat \<Rightarrow> bool" where
  "is_ascii_digit c \<longleftrightarrow> 48 \<le> c \<and> c \<le> 57"

definition re_sub_non_digit :: "pystr \<Rightarrow> pystr" where
  "re_sub_non_digit s = filter is_ascii_digit s"

definition dot :: nat where
  "dot = 46"

definition price_conversion :: "pystr \<Rightarrow> pystr" where
  "price_conversion price = re_sub_non_digit (hd (py_split price dot))"

section \<open>The built-in int on text\<close>

text \<open>
  \<open>int(s)\<close> for a \<open>str\<close>, as CPython reads it in base 10. Code points from 127 on
  are first brought to ASCII: white space becomes a blank, a decimal digit of the Unicode
  database its ASCII digit, anything else a question mark (on which the reading then
  fails). The ASCII text is read as: white space, an optional sign, digits in which single
  underscores may stand between two digits, white space, end. Anything else raises
  ValueError. The decimal digits beyond ASCII come in runs of ten; \<open>decimal_runs\<close> lists
  where each run starts (Unicode 14.0). The interpreter's configurable limit on the
  number of digits is an implementation detail outside the language and is left out.
\<close>

definition py_isspace :: "nat \<Rightarrow> bool" where
  "py_isspace c \<longleftrightarrow> c = 32 \<or> (9 \<le> c \<and> c \<le> 13)"

definition unicode_isspace :: "nat \<Rightarrow> bool" where
  "unicode_isspace c \<longleftrightarrow>
     c \<in> set [133, 160, 5760, 8232, 8233, 8239, 8287, 12288] \<or> (8192 \<le> c \<and> c \<le> 8202)"

definition decimal_runs :: "nat list" where
  "decimal_runs =
    [1632, 1776, 1984, 2406, 2534, 2662, 2790, 2918, 3046, 3174, 3302, 3430, 3558, 3664,
     3792, 3872, 4160, 4240, 6112, 6160, 6470, 6608, 6784, 6800, 6992, 7088, 7232, 7248,
     42528, 43216, 43264, 43472, 43504, 43600, 44016, 65296, 66720, 68912, 69734, 69872,
     69942, 70096, 70384, 70736, 70864, 71248, 71360, 71472, 71904, 72016, 72784, 73040,
     73120, 92768, 92864, 93008, 120782, 120792, 120802, 120812, 120822, 123200, 123632,
     125264, 130032]"

definition unicode_todecimal :: "nat \<Rightarrow> nat option" where
  "unicode_todecimal c =
     map_option (\<lambda>s. c - s) (find (\<lambda>s. s \<le> c \<and> c < s + 10) decimal_runs)"

definition to_ascii :: "nat \<Rightarrow> nat" where
  "to_ascii c =
     (if c < 127 then c
      else if unicode_isspace c then 32
      else (case unicode_todecimal c of Some d \<Rightarrow> 48 + d | None \<Rightarrow> 63))"

text \<open>
  \<open>int_digits acc s\<close> is called after a first digit: it reads on while digits follow,
  each with at most one underscore before it, and gives the value and the unread rest;
  an underscore that no digit follows is an error.
\<close>

fun int_digits :: "int \<Rightarrow> pystr \<Rightarrow> (int \<times> pystr) option" where
  "int_digits acc [] = Some (acc, [])"
| "int_digits acc (c # cs) =
     (if is_ascii_digit c then int_digits (10 * acc + int (c - 48)) cs
      else if c = 95 then
        (case cs of
           [] \<Rightarrow> None
         | d # ds \<Rightarrow>
             if is_ascii_digit d then int_digits (10 * acc + int (d - 48)) ds else None)
      else Some (acc, c # cs))"

definition int_unsigned :: "pystr \<Rightarrow> error + int" where
  "int_unsigned s =
     (case s of
        [] \<Rightarrow> Inl ValueError
      | c # cs \<Rightarrow>
          if is_ascii_digit c then
            (case int_digits (int (c - 48)) cs of
               None \<Rightarrow> Inl ValueError
             | Some (v, rest) \<Rightarrow>
                 if dropWhile py_isspace rest = [] then Inr v else Inl ValueError)
          else Inl ValueError)"

definition int_signed :: "pystr \<Rightarrow> error + int" where
  "int_signed s =
     (case s of
        [] \<Rightarrow> Inl ValueError
      | c # cs \<Rightarrow>
          if c = 43 then int_unsigned cs
          else if c = 45 then map_sum id uminus (int_unsigned cs)
          else int_unsigned s)"

definition py_int :: "pystr \<Rightarrow> error + int" where
  "py_int s = int_signed (dropWhile py_isspace (map to_ascii s))"

text \<open>
  The value of a text of ASCII digits read in base 10, most significant digit first: what
  the specification calls the base-10 integer parse, stated apart from \<open>py_int\<close> to be
  compared with it.
\<close>

definition base10_value :: "pystr \<Rightarrow> int" where
  "base10_value ds = foldl (\<lambda>a c. 10 * a + int (c - 48)) 0 ds"

section \<open>The feed and the update records\<close>

text \<open>
  A row of the distributor's feed is a dict; the functions read three of its keys, the
  Cyrillic words for code, quantity and price, here \<open>kod\<close>, \<open>kolichestvo\<close> and
  \<open>tsena\<close>. The cells are text, as in the docstrings of the source, so \<open>str\<close> of a cell
  is the cell and \<open>int\<close> of a cell is \<open>py_int\<close>.
\<close>

record watch =
  kod :: pystr
  kolichestvo :: pystr
  tsena :: pystr

text \<open>seller: \<^verbatim>\<open>{"offer_id": ..., "stock": ...}\<close>\<close>

record seller_stock =
  offer_id :: pystr
  stock :: int

text \<open>market: \<^verbatim>\<open>{"sku": ..., "warehouseId": ..., "items": [{"count": ..., "type": "FIT", "updatedAt": ...}]}\<close>\<close>

record market_item =
  count :: int
  item_type :: pystr
  updatedAt :: pystr

record market_stock =
  sku :: pystr
  warehouseId :: pystr
  items :: "market_item list"

text \<open>seller: the five keys of a price entry.\<close>

record seller_price =
  auto_action_enabled :: pystr
  currency_code :: pystr
  price_offer_id :: pystr
  old_price :: pystr
  price :: pystr

text \<open>market: \<^verbatim>\<open>{"id": ..., "price": {"value": ..., "currencyId": "RUR"}}\<close>\<close>

record market_price_value =
  price_value :: int
  currencyId :: pystr

record market_price =
  price_id :: pystr
  price_of :: market_price_value

section \<open>create_stocks\<close>

text \<open>
  The conditional that both \<open>create_stocks\<close> apply to the quantity cell of a matched row
  (seller.py lines 199 to 205, market.py lines 174 to 180):
  \<^verbatim>\<open>
  count = str(watch.get(QUANTITY))
  if count == ">10": stock = 100
  elif count == "1": stock = 0
  else: stock = int(watch.get(QUANTITY))
  \<close>
\<close>

definition normalize_quantity :: "pystr \<Rightarrow> error + int" where
  "normalize_quantity count' =
     (if count' = ascii ''>10'' then Inr 100
      else if count' = ascii ''1'' then Inr 0
      else py_int count')"

text \<open>
  \<open>create_stocks\<close> changes the list \<open>offer_ids\<close> it is given, so the model returns the
  list as the call leaves it next to the result; an exception leaves the removals made
  before it in place. \<open>x in offer_ids\<close> is membership, \<open>offer_ids.remove(x)\<close> deletes
  the first occurrence.
\<close>

fun seller_stocks_loop ::
  "watch list \<Rightarrow> seller_stock list \<Rightarrow> pystr list \<Rightarrow> (error + seller_stock list) \<times> pystr list"
where
  "seller_stocks_loop [] stocks offer_ids = (Inr stocks, offer_ids)"
| "seller_stocks_loop (w # ws) stocks offer_ids =
     (if kod w \<in> set offer_ids then
        (case normalize_quantity (kolichestvo w) of
           Inl e \<Rightarrow> (Inl e, offer_ids)
         | Inr n \<Rightarrow>
             seller_stocks_loop ws
               (stocks @ [\<lparr>offer_id = kod w, stock = n\<rparr>])
               (remove1 (kod w) offer_ids))
      else seller_stocks_loop ws stocks offer_ids)"

definition seller_create_stocks ::
  "watch list \<Rightarrow> pystr list \<Rightarrow> (error + seller_stock list) \<times> pystr list"
where
  "seller_create_stocks watch_remnants offer_ids =
     (case seller_stocks_loop watch_remnants [] offer_ids of
        (Inl e, ids) \<Rightarrow> (Inl e, ids)
      | (Inr stocks, ids) \<Rightarrow>
          (Inr (stocks @ map (\<lambda>i. \<lparr>offer_id = i, stock = 0\<rparr>) ids), ids))"

text \<open>
  The market variant builds the other record shape; \<open>date\<close> is the text of the clock
  reading taken once before the loop.
\<close>

definition fit :: pystr where
  "fit = ascii ''FIT''"

fun market_stocks_loop ::
  "pystr \<Rightarrow> pystr \<Rightarrow> watch list \<Rightarrow> market_stock list \<Rightarrow> pystr list
   \<Rightarrow> (error + market_stock list) \<times> pystr list"
where
  "market_stocks_loop warehouse_id date [] stocks offer_ids = (Inr stocks, offer_ids)"
| "market_stocks_loop warehouse_id date (w # ws) stocks offer_ids =
     (if kod w \<in> set offer_ids then
        (case normalize_quantity (kolichestvo w) of
           Inl e \<Rightarrow> (Inl e, offer_ids)
         | Inr n \<Rightarrow>
             market_stocks_loop warehouse_id date ws
               (stocks @ [\<lparr>sku = kod w, warehouseId = warehouse_id,
                           items = [\<lparr>count = n, item_type = fit, updatedAt = date\<rparr>]\<rparr>])
               (remove1 (kod w) offer_ids))
      else market_stocks_loop warehouse_id date ws stocks offer_ids)"

definition market_create_stocks ::
  "pystr \<Rightarrow> watch list \<Rightarrow> pystr list \<Rightarrow> pystr \<Rightarrow> (error + market_stock list) \<times> pystr list"
where
  "market_create_stocks date watch_remnants offer_ids warehouse_id =
     (case market_stocks_loop warehouse_id date watch_remnants [] offer_ids of
        (Inl e, ids) \<Rightarrow> (Inl e, ids)
      | (Inr stocks, ids) \<Rightarrow>
          (Inr (stocks @ map (\<lambda>i. \<lparr>sku = i, warehouseId = warehouse_id,
                                    items = [\<lparr>count = 0, item_type = fit, updatedAt = date\<rparr>]\<rparr>) ids),
           ids))"

text \<open>
  The two loops differ in the shape of the record only: \<open>as_market_stock\<close> is the market
  record holding the identifier and the count of a seller record. It serves to carry the
  facts proved of the seller loop over to the market loop.
\<close>

definition as_market_stock :: "pystr \<Rightarrow> pystr \<Rightarrow> seller_stock \<Rightarrow> market_stock" where
  "as_market_stock warehouse_id date r =
     \<lparr>sku = offer_id r, warehouseId = warehouse_id,
      items = [\<lparr>count = stock r, item_type = fit, updatedAt = date\<rparr>]\<rparr>"

section \<open>create_prices\<close>

text \<open>
  Both \<open>create_prices\<close> only read \<open>offer_ids\<close>. The loops carry the list along all the
  same, so that what the call leaves of it is part of the result, as for \<open>create_stocks\<close>.
  The market variant applies \<open>int\<close> to the converted price, the seller variant stores the
  converted text.
\<close>

fun seller_prices_loop ::
  "watch list \<Rightarrow> seller_price list \<Rightarrow> pystr list \<Rightarrow> seller_price list \<times> pystr list"
where
  "seller_prices_loop [] prices offer_ids = (prices, offer_ids)"
| "seller_prices_loop (w # ws) prices offer_ids =
     (if kod w \<in> set offer_ids then
        seller_prices_loop ws
          (prices @ [\<lparr>auto_action_enabled = ascii ''UNKNOWN'', currency_code = ascii ''RUB'',
                      price_offer_id = kod w, old_price = ascii ''0'',
                      price = price_conversion (tsena w)\<rparr>])
          offer_ids
      else seller_prices_loop ws prices offer_ids)"

definition seller_create_prices ::
  "watch list \<Rightarrow> pystr list \<Rightarrow> seller_price list \<times> pystr list"
where
  "seller_create_prices watch_remnants offer_ids = seller_prices_loop watch_remnants [] offer_ids"

fun market_prices_loop ::
  "watch list \<Rightarrow> market_price list \<Rightarrow> pystr list \<Rightarrow> (error + market_price list) \<times> pystr list"
where
  "market_prices_loop [] prices offer_ids = (Inr prices, offer_ids)"
| "market_prices_loop (w # ws) prices offer_ids =
     (if kod w \<in> set offer_ids then
        (case py_int (price_conversion (tsena w)) of
           Inl e \<Rightarrow> (Inl e, offer_ids)
         | Inr v \<Rightarrow>
             market_prices_loop ws
               (prices @ [\<lparr>price_id = kod w,
                           price_of = \<lparr>price_value = v, currencyId = ascii ''RUR''\<rparr>\<rparr>])
               offer_ids)
      else market_prices_loop ws prices offer_ids)"

definition market_create_prices ::
  "watch list \<Rightarrow> pystr list \<Rightarrow> (error + market_price list) \<times> pystr list"
where
  "market_create_prices watch_remnants offer_ids = market_prices_loop watch_remnants [] offer_ids"

text \<open>
  The entry each variant builds from a matched feed row, as a function of the row; the
  market entry is written with the base-10 value of the converted price. They serve to
  state what the loops return.
\<close>

definition seller_price_of :: "watch \<Rightarrow> seller_price" where
  "seller_price_of w =
     \<lparr>auto_action_enabled = ascii ''UNKNOWN'', currency_code = ascii ''RUB'',
      price_offer_id = kod w, old_price = ascii ''0'', price = price_conversion (tsena w)\<rparr>"

definition market_price_of :: "watch \<Rightarrow> market_price" where
  "market_price_of w =
     \<lparr>price_id = kod w,
      price_of = \<lparr>price_value = base10_value (price_conversion (tsena w)),
                  currencyId = ascii ''RUR''\<rparr>\<rparr>"

section \<open>seller.divide\<close>

text \<open>
  \<^verbatim>\<open>
  for i in range(0, len(lst), n):
      yield lst[i : i + n]
  \<close>
  \<open>divide\<close> is a generator; every caller consumes it at once with \<open>list(...)\<close>, and the
  model is what that gives: the list of the chunks, or the exception met on the way.
  \<open>range\<close> raises ValueError on a zero step, counts up on a positive and down on a
  negative one; its length and its elements are computed as CPython does. A slice clamps
  its bounds to the list, a negative bound counting from the end.
\<close>

definition range_len :: "int \<Rightarrow> int \<Rightarrow> int \<Rightarrow> nat" where
  "range_len start stop step =
     (if 0 < step \<and> start < stop then nat ((stop - start - 1) div step + 1)
      else if step < 0 \<and> stop < start then nat ((start - stop - 1) div (- step) + 1)
      else 0)"

definition py_range :: "int \<Rightarrow> int \<Rightarrow> int \<Rightarrow> error + int list" where
  "py_range start stop step =
     (if step = 0 then Inl ValueError
      else Inr (map (\<lambda>k. start + int k * step) [0..<range_len start stop step]))"

definition slice_bound :: "nat \<Rightarrow> int \<Rightarrow> nat" where
  "slice_bound len i = (if i < 0 then nat (max 0 (i + int len)) else min (nat i) len)"

definition py_slice :: "'a list \<Rightarrow> int \<Rightarrow> int \<Rightarrow> 'a list" where
  "py_slice lst i j =
     (let lo = slice_bound (length lst) i; hi = slice_bound (length lst) j
      in take (hi - lo) (drop lo lst))"

definition divide_list :: "'a list \<Rightarrow> int \<Rightarrow> error + 'a list list" where
  "divide_list lst n =
     (case py_range 0 (int (length lst)) n of
        Inl e \<Rightarrow> Inl e
      | Inr is \<Rightarrow> Inr (map (\<lambda>i. py_slice lst i (i + n)) is))"

section \<open>seller.get_offer_ids\<close>

text \<open>
  \<^verbatim>\<open>
  last_id = ""
  product_list = []
  while True:
      some_prod = get_product_list(last_id, client_id, seller_token)
      product_list.extend(some_prod.get("items"))
      total = some_prod.get("total")
      last_id = some_prod.get("last_id")
      if total == len(product_list):
          break
  \<close>
  The page fetch is the outside world: \<open>get_product_list k last_id\<close> is the answer to the
  call number \<open>k\<close> made with the cursor \<open>last_id\<close>, a page or the error of a failed
  request. The loop need not end, so it is a partial function: \<open>None\<close> is a run that goes
  on for ever.
\<close>

record product =
  product_offer_id :: pystr

record page =
  page_items :: "product list"
  page_total :: int
  last_id :: pystr

partial_function (option) offer_ids_loop ::
  "(nat \<Rightarrow> pystr \<Rightarrow> error + page) \<Rightarrow> nat \<Rightarrow> pystr \<Rightarrow> product list
   \<Rightarrow> (error + product list) option"
where
  "offer_ids_loop get_product_list k last_id' product_list =
     (case get_product_list k last_id' of
        Inl e \<Rightarrow> Some (Inl e)
      | Inr some_prod \<Rightarrow>
          if page_total some_prod = int (length (product_list @ page_items some_prod))
          then Some (Inr (product_list @ page_items some_prod))
          else offer_ids_loop get_product_list (Suc k) (last_id some_prod)
                 (product_list @ page_items some_prod))"

definition get_offer_ids ::
  "(nat \<Rightarrow> pystr \<Rightarrow> error + page) \<Rightarrow> (error + pystr list) option"
where
  "get_offer_ids get_product_list =
     map_option (map_sum id (map product_offer_id)) (offer_ids_loop get_product_list 0 [] [])"

text \<open>
  \<open>fetched ps k\<close> is what \<open>product_list\<close> holds after the pages \<open>ps 0\<close> to \<open>ps (k - 1)\<close>
  have been appended.
\<close>

definition fetched :: "(nat \<Rightarrow> page) \<Rightarrow> nat \<Rightarrow> product list" where
  "fetched ps k = concat (map (\<lambda>i. page_items (ps i)) [0..<k])"

text \<open>
  A catalog of three products served in two pages, the second under the cursor the first
  one hands out; any other cursor is refused.
\<close>

definition two_page_server :: "nat \<Rightarrow> pystr \<Rightarrow> error + page" where
  "two_page_server k cursor =
     (if cursor = [] then
        Inr \<lparr>page_items = [\<lparr>product_offer_id = ascii ''A''\<rparr>, \<lparr>product_offer_id = ascii ''B''\<rparr>],
             page_total = 3, last_id = ascii ''B''\<rparr>
      else if cursor = ascii ''B'' then
        Inr \<lparr>page_items = [\<lparr>product_offer_id = ascii ''C''\<rparr>], page_total = 3, last_id = ascii ''C''\<rparr>
      else Inl HTTPError)"

section \<open>Properties of price_conversion\<close>

lemma py_split_nonempty: "py_split s sep \<noteq> []"
  by (induction s) auto

lemma hd_py_split: "hd (py_split s sep) = takeWhile (\<lambda>c. c \<noteq> sep) s"
  by (induction s) auto

lemma price_conversion_takeWhile:
  "price_conversion s = filter is_ascii_digit (takeWhile (\<lambda>c. c \<noteq> dot) s)"
  by (simp add: price_conversion_def re_sub_non_digit_def hd_py_split)

text \<open>
  C5. For every text, \<open>price_conversion\<close> keeps the part before the first decimal point
  and deletes from it every code point that is not an ASCII digit. The price
  \<open>5'990.00\<close> followed by a space and the Cyrillic abbreviation (code points 1088, 1091,
  1073 and a final point) gives \<open>5990\<close>, the empty text gives the empty text, \<open>123\<close> gives
  \<open>123\<close>, and a text without a decimal point is filtered as a whole.
\<close>

theorem price_conversion_spec:
  "price_conversion s = filter is_ascii_digit (takeWhile (\<lambda>c. c \<noteq> dot) s)
   \<and> price_conversion (ascii ''5'990.00 '' @ [1088, 1091, 1073, 46]) = ascii ''5990''
   \<and> price_conversion [] = []
   \<and> price_conversion (ascii ''123'') = ascii ''123''
   \<and> (dot \<notin> set s \<longrightarrow> price_conversion s = filter is_ascii_digit s)"
proof -
  have ex: "price_conversion (ascii ''5'990.00 '' @ [1088, 1091, 1073, 46]) = ascii ''5990''"
    by (simp add: price_conversion_takeWhile ascii_def dot_def is_ascii_digit_def)
  have e123: "price_conversion (ascii ''123'') = ascii ''123''"
    by (simp add: price_conversion_takeWhile ascii_def dot_def is_ascii_digit_def)
  have nodot: "takeWhile (\<lambda>c. c \<noteq> dot) s = s" if "dot \<notin> set s"
    using that by (induction s) auto
  have whole: "dot \<notin> set s \<longrightarrow> price_conversion s = filter is_ascii_digit s"
    by (simp add: price_conversion_takeWhile nodot)
  have empty: "price_conversion [] = []"
    by (simp add: price_conversion_takeWhile)
  show ?thesis
    using ex e123 whole empty price_conversion_takeWhile [of s] by blast
qed

theorem price_conversion_spec_witness:
  "dot \<notin> set (ascii ''1 2a'')
   \<and> price_conversion (ascii ''1 2a'') = ascii ''12''
   \<and> price_conversion (ascii ''1 2a'') = filter is_ascii_digit (ascii ''1 2a'')"
  using price_conversion_spec [of "ascii ''1 2a''"]
  by (simp add: ascii_def dot_def is_ascii_digit_def)

section \<open>Properties of int and of the quantity rule\<close>

lemma int_digits_all_digits:
  "\<forall>c\<in>set ds. is_ascii_digit c \<Longrightarrow>
     int_digits acc ds = Some (foldl (\<lambda>a c. 10 * a + int (c - 48)) acc ds, [])"
  by (induction ds arbitrary: acc) auto

lemma int_unsigned_all_digits:
  assumes "ds \<noteq> []" and "\<forall>c\<in>set ds. is_ascii_digit c"
  shows "int_unsigned ds = Inr (base10_value ds)"
proof -
  from assms(1) obtain c cs where ds: "ds = c # cs" by (cases ds) auto
  with assms(2) have c: "is_ascii_digit c" and cs: "\<forall>c\<in>set cs. is_ascii_digit c" by auto
  show ?thesis
    by (simp add: ds int_unsigned_def c int_digits_all_digits [OF cs] base10_value_def)
qed

lemma to_ascii_digit: "is_ascii_digit c \<Longrightarrow> to_ascii c = c"
  by (simp add: is_ascii_digit_def to_ascii_def)

lemma digit_not_space: "is_ascii_digit c \<Longrightarrow> \<not> py_isspace c"
  by (auto simp: is_ascii_digit_def py_isspace_def)

lemma py_int_all_digits:
  assumes "ds \<noteq> []" and "\<forall>c\<in>set ds. is_ascii_digit c"
  shows "py_int ds = Inr (base10_value ds)"
proof -
  from assms(1) obtain c cs where ds: "ds = c # cs" by (cases ds) auto
  with assms(2) have c: "is_ascii_digit c" by auto
  have m: "map to_ascii ds = ds"
    using assms(2) by (simp add: map_idI to_ascii_digit)
  have d: "dropWhile py_isspace ds = ds"
    using c by (simp add: ds digit_not_space)
  have "c \<noteq> 43" "c \<noteq> 45" using c by (auto simp: is_ascii_digit_def)
  then have "int_signed ds = int_unsigned ds"
    by (simp add: int_signed_def ds)
  then show ?thesis
    by (simp add: py_int_def m d int_unsigned_all_digits [OF assms])
qed

lemma py_int_empty: "py_int [] = Inl ValueError"
  by (simp add: py_int_def int_signed_def)









section \<open>Properties of create_stocks\<close>

lemma filter_notin_codes_Cons:
  "filter (\<lambda>i. i \<notin> f ` set (w # ws)) xs
     = filter (\<lambda>i. i \<noteq> f w) (filter (\<lambda>i. i \<notin> f ` set ws) xs)"
  by (induction xs) auto

lemma filter_neq_remove1:
  "filter (\<lambda>i. i \<noteq> c) (remove1 c xs) = filter (\<lambda>i. i \<noteq> c) xs"
  by (induction xs) auto

lemma filter_notin_codes_remove1:
  "filter (\<lambda>i. i \<notin> f ` set (w # ws)) (remove1 (f w) xs)
     = filter (\<lambda>i. i \<notin> f ` set (w # ws)) xs"
  by (induction xs) auto

lemma distinct_remove1_filter:
  "distinct xs \<Longrightarrow> remove1 c xs = filter (\<lambda>i. i \<noteq> c) xs"
  by (simp add: distinct_remove1_removeAll removeAll_filter_not_eq) (metis)

lemma seller_stocks_loop_returns:
  "seller_stocks_loop ws acc ids = (Inr out, rest) \<Longrightarrow>
     \<exists>new. out = acc @ new
       \<and> (\<forall>r\<in>set new. offer_id r \<in> kod ` set ws \<and> offer_id r \<in> set ids)
       \<and> filter (\<lambda>i. i \<notin> kod ` set ws) rest = filter (\<lambda>i. i \<notin> kod ` set ws) ids"
proof (induction ws arbitrary: acc ids)
  case Nil
  then show ?case by simp
next
  case (Cons w ws)
  show ?case
  proof (cases "kod w \<in> set ids")
    case False
    with Cons.prems have "seller_stocks_loop ws acc ids = (Inr out, rest)" by simp
    from Cons.IH [OF this] obtain new where
      n: "out = acc @ new" "\<forall>r\<in>set new. offer_id r \<in> kod ` set ws \<and> offer_id r \<in> set ids"
         "filter (\<lambda>i. i \<notin> kod ` set ws) rest = filter (\<lambda>i. i \<notin> kod ` set ws) ids"
      by blast
    have "filter (\<lambda>i. i \<notin> kod ` set (w # ws)) rest = filter (\<lambda>i. i \<notin> kod ` set (w # ws)) ids"
      by (simp only: filter_notin_codes_Cons n(3))
    with n(1,2) show ?thesis by auto
  next
    case True
    with Cons.prems obtain n where
      q: "normalize_quantity (kolichestvo w) = Inr n" and
      l: "seller_stocks_loop ws (acc @ [\<lparr>offer_id = kod w, stock = n\<rparr>]) (remove1 (kod w) ids)
            = (Inr out, rest)"
      by (auto split: sum.splits)
    from Cons.IH [OF l] obtain new where
      n: "out = (acc @ [\<lparr>offer_id = kod w, stock = n\<rparr>]) @ new"
         "\<forall>r\<in>set new. offer_id r \<in> kod ` set ws \<and> offer_id r \<in> set (remove1 (kod w) ids)"
         "filter (\<lambda>i. i \<notin> kod ` set ws) rest
            = filter (\<lambda>i. i \<notin> kod ` set ws) (remove1 (kod w) ids)"
      by blast
    have "filter (\<lambda>i. i \<notin> kod ` set (w # ws)) rest
            = filter (\<lambda>i. i \<notin> kod ` set (w # ws)) (remove1 (kod w) ids)"
      by (simp only: filter_notin_codes_Cons n(3))
    then have "filter (\<lambda>i. i \<notin> kod ` set (w # ws)) rest
            = filter (\<lambda>i. i \<notin> kod ` set (w # ws)) ids"
      by (simp only: filter_notin_codes_remove1)
    moreover have "out = acc @ (\<lparr>offer_id = kod w, stock = n\<rparr> # new)"
      using n(1) by simp
    moreover have "\<forall>r\<in>set (\<lparr>offer_id = kod w, stock = n\<rparr> # new).
        offer_id r \<in> kod ` set (w # ws) \<and> offer_id r \<in> set ids"
      using n(2) True set_remove1_subset [of "kod w" ids] by auto
    ultimately show ?thesis by blast
  qed
qed

lemma seller_stocks_loop_distinct:
  "distinct ids \<Longrightarrow> seller_stocks_loop ws acc ids = (Inr out, rest) \<Longrightarrow>
     \<exists>new. out = acc @ new
       \<and> distinct (map offer_id new)
       \<and> set (map offer_id new) = set ids \<inter> kod ` set ws
       \<and> rest = filter (\<lambda>i. i \<notin> kod ` set ws) ids"
proof (induction ws arbitrary: acc ids)
  case Nil
  then show ?case by simp
next
  case (Cons w ws)
  show ?case
  proof (cases "kod w \<in> set ids")
    case False
    with Cons.prems have "seller_stocks_loop ws acc ids = (Inr out, rest)" by simp
    from Cons.IH [OF Cons.prems(1) this] obtain new where
      n: "out = acc @ new" "distinct (map offer_id new)"
         "set (map offer_id new) = set ids \<inter> kod ` set ws"
         "rest = filter (\<lambda>i. i \<notin> kod ` set ws) ids"
      by blast
    have "rest = filter (\<lambda>i. i \<notin> kod ` set (w # ws)) ids"
      unfolding n(4) using False by (intro filter_cong) auto
    moreover have "set (map offer_id new) = set ids \<inter> kod ` set (w # ws)"
      using n(3) False by auto
    ultimately show ?thesis using n(1,2) by blast
  next
    case True
    with Cons.prems obtain n where
      l: "seller_stocks_loop ws (acc @ [\<lparr>offer_id = kod w, stock = n\<rparr>]) (remove1 (kod w) ids)
            = (Inr out, rest)"
      by (auto split: sum.splits)
    have d: "distinct (remove1 (kod w) ids)" using Cons.prems(1) by simp
    have s: "set (remove1 (kod w) ids) = set ids - {kod w}" using Cons.prems(1) by simp
    from Cons.IH [OF d l] obtain new where
      n: "out = (acc @ [\<lparr>offer_id = kod w, stock = n\<rparr>]) @ new" "distinct (map offer_id new)"
         "set (map offer_id new) = set (remove1 (kod w) ids) \<inter> kod ` set ws"
         "rest = filter (\<lambda>i. i \<notin> kod ` set ws) (remove1 (kod w) ids)"
      by blast
    let ?new = "\<lparr>offer_id = kod w, stock = n\<rparr> # new"
    have "out = acc @ ?new" using n(1) by simp
    moreover have "distinct (map offer_id ?new)" using n(2,3) s by auto
    moreover have "set (map offer_id ?new) = set ids \<inter> kod ` set (w # ws)"
      using n(3) s True by auto
    moreover have "rest = filter (\<lambda>i. i \<notin> kod ` set (w # ws)) ids"
    proof -
      have "rest = filter (\<lambda>i. i \<notin> kod ` set ws) (filter (\<lambda>i. i \<noteq> kod w) ids)"
        unfolding n(4) using Cons.prems(1) by (simp only: distinct_remove1_filter)
      also have "\<dots> = filter (\<lambda>i. i \<notin> kod ` set (w # ws)) ids"
        by (induction ids) auto
      finally show ?thesis .
    qed
    ultimately show ?thesis by blast
  qed
qed

lemma seller_stocks_loop_total:
  "distinct ids \<Longrightarrow>
   (\<forall>k<length ws. kod (ws ! k) \<in> set ids \<and> kod (ws ! k) \<notin> kod ` set (take k ws)
        \<longrightarrow> (\<exists>n. normalize_quantity (kolichestvo (ws ! k)) = Inr n)) \<Longrightarrow>
   \<exists>out rest. seller_stocks_loop ws acc ids = (Inr out, rest)"
proof (induction ws arbitrary: acc ids)
  case Nil
  then show ?case by simp
next
  case (Cons w ws)
  have h: "kod (ws ! k) \<in> set ids \<Longrightarrow> kod (ws ! k) \<noteq> kod w \<Longrightarrow>
           kod (ws ! k) \<notin> kod ` set (take k ws) \<Longrightarrow>
           \<exists>n. normalize_quantity (kolichestvo (ws ! k)) = Inr n" if "k < length ws" for k
    using Cons.prems(2) [rule_format, of "Suc k"] that by simp
  show ?case
  proof (cases "kod w \<in> set ids")
    case False
    have "\<forall>k<length ws. kod (ws ! k) \<in> set ids \<and> kod (ws ! k) \<notin> kod ` set (take k ws)
        \<longrightarrow> (\<exists>n. normalize_quantity (kolichestvo (ws ! k)) = Inr n)"
      using h False by metis
    from Cons.IH [OF Cons.prems(1) this, of acc] show ?thesis using False by simp
  next
    case True
    from Cons.prems(2) [rule_format, of 0] True obtain n where
      q: "normalize_quantity (kolichestvo w) = Inr n" by auto
    have d: "distinct (remove1 (kod w) ids)" using Cons.prems(1) by simp
    have s: "set (remove1 (kod w) ids) = set ids - {kod w}" using Cons.prems(1) by simp
    have "\<forall>k<length ws. kod (ws ! k) \<in> set (remove1 (kod w) ids)
             \<and> kod (ws ! k) \<notin> kod ` set (take k ws)
        \<longrightarrow> (\<exists>n. normalize_quantity (kolichestvo (ws ! k)) = Inr n)"
      using h s by auto
    from Cons.IH [OF d this, of "acc @ [\<lparr>offer_id = kod w, stock = n\<rparr>]"]
    show ?thesis using True q by simp
  qed
qed

lemma market_stocks_loop_seller:
  "market_stocks_loop wh date ws (map (as_market_stock wh date) acc) ids
     = (map_sum (\<lambda>e. e) (map (as_market_stock wh date)) (fst (seller_stocks_loop ws acc ids)),
        snd (seller_stocks_loop ws acc ids))"
proof (induction ws arbitrary: acc ids)
  case Nil
  then show ?case by simp
next
  case (Cons w ws)
  have lit: "\<lparr>sku = kod w, warehouseId = wh,
            items = [\<lparr>count = n, item_type = fit, updatedAt = date\<rparr>]\<rparr>
        = as_market_stock wh date \<lparr>offer_id = kod w, stock = n\<rparr>" for n
    by (simp add: as_market_stock_def)
  have ih: "market_stocks_loop wh date ws
              (map (as_market_stock wh date) acc @ [as_market_stock wh date r]) ids'
        = (map_sum (\<lambda>e. e) (map (as_market_stock wh date))
             (fst (seller_stocks_loop ws (acc @ [r]) ids')),
           snd (seller_stocks_loop ws (acc @ [r]) ids'))" for r ids'
    using Cons.IH [of "acc @ [r]" ids'] by simp
  show ?case
    by (simp add: lit ih Cons.IH split: sum.splits)
qed

lemma market_create_stocks_seller:
  "market_create_stocks date ws ids wh
     = (map_sum (\<lambda>e. e) (map (as_market_stock wh date)) (fst (seller_create_stocks ws ids)),
        snd (seller_create_stocks ws ids))"
  using market_stocks_loop_seller [of wh date ws "[]" ids]
  by (auto simp: market_create_stocks_def seller_create_stocks_def as_market_stock_def
           split: prod.splits sum.splits)

lemma seller_create_stocks_returns:
  assumes "seller_create_stocks ws ids = (Inr out, rest)"
  shows "\<exists>matched. seller_stocks_loop ws [] ids = (Inr matched, rest)
           \<and> out = matched @ map (\<lambda>i. \<lparr>offer_id = i, stock = 0\<rparr>) rest"
  using assms
  by (auto simp: seller_create_stocks_def split: prod.splits sum.splits)

lemma seller_create_stocks_shape:
  assumes "seller_create_stocks ws ids = (Inr out, rest)"
  shows "\<exists>matched. out = matched @ map (\<lambda>i. \<lparr>offer_id = i, stock = 0\<rparr>) rest
           \<and> (\<forall>r\<in>set matched. offer_id r \<in> kod ` set ws \<and> offer_id r \<in> set ids)
           \<and> filter (\<lambda>i. i \<notin> kod ` set ws) rest = filter (\<lambda>i. i \<notin> kod ` set ws) ids
           \<and> (distinct ids \<longrightarrow> rest = filter (\<lambda>i. i \<notin> kod ` set ws) ids
                 \<and> distinct (map offer_id matched)
                 \<and> set (map offer_id matched) = set ids \<inter> kod ` set ws)"
proof -
  from seller_create_stocks_returns [OF assms] obtain matched where
    m: "seller_stocks_loop ws [] ids = (Inr matched, rest)"
       "out = matched @ map (\<lambda>i. \<lparr>offer_id = i, stock = 0\<rparr>) rest"
    by blast
  from seller_stocks_loop_returns [OF m(1)] have
    a: "\<forall>r\<in>set matched. offer_id r \<in> kod ` set ws \<and> offer_id r \<in> set ids"
       "filter (\<lambda>i. i \<notin> kod ` set ws) rest = filter (\<lambda>i. i \<notin> kod ` set ws) ids"
    by auto
  have "rest = filter (\<lambda>i. i \<notin> kod ` set ws) ids
          \<and> distinct (map offer_id matched)
          \<and> set (map offer_id matched) = set ids \<inter> kod ` set ws" if "distinct ids"
    using seller_stocks_loop_distinct [OF that m(1)] by auto
  with m(2) a show ?thesis by blast
qed

lemma seller_create_stocks_ids:
  assumes "distinct ids" and "seller_create_stocks ws ids = (Inr out, rest)"
  shows "distinct (map offer_id out) \<and> set (map offer_id out) = set ids"
proof -
  from seller_create_stocks_shape [OF assms(2)] assms(1) obtain matched where
    m: "out = matched @ map (\<lambda>i. \<lparr>offer_id = i, stock = 0\<rparr>) rest"
       "rest = filter (\<lambda>i. i \<notin> kod ` set ws) ids"
       "distinct (map offer_id matched)"
       "set (map offer_id matched) = set ids \<inter> kod ` set ws"
    by blast
  have ids: "map offer_id out = map offer_id matched @ rest"
    unfolding m(1) by (simp add: o_def)
  have "distinct rest" unfolding m(2) using assms(1) by simp
  moreover have "set (map offer_id matched) \<inter> set rest = {}"
    unfolding m(4) m(2) by auto
  ultimately have "distinct (map offer_id out)"
    unfolding ids using m(3) by simp
  moreover have "set (map offer_id out) = set ids"
  proof -
    have "set (map offer_id out) = set (map offer_id matched) \<union> set rest"
      by (simp only: ids set_append)
    also have "\<dots> = (set ids \<inter> kod ` set ws) \<union> set (filter (\<lambda>i. i \<notin> kod ` set ws) ids)"
      using m(2) m(4) by simp
    also have "\<dots> = set ids" by auto
    finally show ?thesis .
  qed
  ultimately show ?thesis by blast
qed

lemma distinct_keys_one_each:
  assumes "distinct (map f xs)" and "set (map f xs) = set ids" and "distinct ids"
  shows "length xs = length ids \<and> (\<forall>i\<in>set ids. length (filter (\<lambda>r. f r = i) xs) = 1)
           \<and> (\<forall>r\<in>set xs. f r \<in> set ids)"
proof -
  have "length xs = length (map f xs)" by simp
  also have "\<dots> = card (set (map f xs))" using assms(1) by (simp only: distinct_card)
  also have "\<dots> = length ids" using assms(2,3) by (simp only: distinct_card)
  finally have l: "length xs = length ids" .
  have one: "length (filter (\<lambda>r. f r = i) xs) = 1" if "i \<in> set ids" for i
  proof -
    have "length (filter (\<lambda>r. f r = i) xs) = length (filter (\<lambda>y. y = i) (map f xs))"
      by (simp add: filter_map o_def)
    also have "\<dots> = card ({y. y = i} \<inter> set (map f xs))"
      using assms(1) by (rule distinct_length_filter)
    also have "{y. y = i} \<inter> set (map f xs) = {i}"
      using that assms(2) by auto
    finally show ?thesis by simp
  qed
  have "\<forall>r\<in>set xs. f r \<in> set ids" using assms(2) by auto
  with l one show ?thesis by blast
qed

lemma sku_as_market_stock: "map sku (map (as_market_stock wh date) out) = map offer_id out"
  by (simp add: as_market_stock_def o_def)

text \<open>
  C1 (as amended). For every duplicate-free list of catalog identifiers and every feed in
  which each row that is the first with its code and whose code is in the catalog has a
  quantity that \<open>normalize_quantity\<close> accepts, both \<open>create_stocks\<close> return a list with as
  many records as the catalog has identifiers, every catalog identifier is the
  \<open>offer_id\<close> (the \<open>sku\<close>) of exactly one record, and every record carries a catalog
  identifier. Without the condition on the quantities the call may raise instead of
  returning, as the example after the theorem shows.
\<close>

theorem create_stocks_one_record_each:
  assumes "distinct ids"
    and "\<forall>k<length ws. kod (ws ! k) \<in> set ids \<and> kod (ws ! k) \<notin> kod ` set (take k ws)
           \<longrightarrow> (\<exists>n. normalize_quantity (kolichestvo (ws ! k)) = Inr n)"
  shows "(\<exists>out rest. seller_create_stocks ws ids = (Inr out, rest)
            \<and> length out = length ids
            \<and> (\<forall>i\<in>set ids. length (filter (\<lambda>r. offer_id r = i) out) = 1)
            \<and> (\<forall>r\<in>set out. offer_id r \<in> set ids))
       \<and> (\<exists>out rest. market_create_stocks date ws ids warehouse_id = (Inr out, rest)
            \<and> length out = length ids
            \<and> (\<forall>i\<in>set ids. length (filter (\<lambda>r. sku r = i) out) = 1)
            \<and> (\<forall>r\<in>set out. sku r \<in> set ids))"
proof -
  from seller_stocks_loop_total [OF assms, of "[]"] obtain matched rest where
    "seller_stocks_loop ws [] ids = (Inr matched, rest)" by blast
  then obtain out where s: "seller_create_stocks ws ids = (Inr out, rest)"
    by (simp add: seller_create_stocks_def)
  from seller_create_stocks_ids [OF assms(1) s] have
    d: "distinct (map offer_id out)" "set (map offer_id out) = set ids" by auto
  let ?mout = "map (as_market_stock warehouse_id date) out"
  have m: "market_create_stocks date ws ids warehouse_id = (Inr ?mout, rest)"
    by (simp add: market_create_stocks_seller s)
  have dm: "distinct (map sku ?mout)" "set (map sku ?mout) = set ids"
    using d by (simp_all only: sku_as_market_stock)
  from distinct_keys_one_each [OF d assms(1)] s
  have "\<exists>out rest. seller_create_stocks ws ids = (Inr out, rest)
            \<and> length out = length ids
            \<and> (\<forall>i\<in>set ids. length (filter (\<lambda>r. offer_id r = i) out) = 1)
            \<and> (\<forall>r\<in>set out. offer_id r \<in> set ids)"
    by blast
  moreover from distinct_keys_one_each [OF dm assms(1)] m
  have "\<exists>out rest. market_create_stocks date ws ids warehouse_id = (Inr out, rest)
            \<and> length out = length ids
            \<and> (\<forall>i\<in>set ids. length (filter (\<lambda>r. sku r = i) out) = 1)
            \<and> (\<forall>r\<in>set out. sku r \<in> set ids)"
    by blast
  ultimately show ?thesis by blast
qed

theorem create_stocks_one_record_each_witness:
  "distinct [ascii ''A'', ascii ''B'']
   \<and> seller_create_stocks
        [\<lparr>kod = ascii ''A'', kolichestvo = ascii ''>10'', tsena = ascii ''1.00''\<rparr>,
         \<lparr>kod = ascii ''A'', kolichestvo = ascii ''many'', tsena = ascii ''1.00''\<rparr>,
         \<lparr>kod = ascii ''C'', kolichestvo = ascii ''few'', tsena = ascii ''2.00''\<rparr>]
        [ascii ''A'', ascii ''B'']
       = (Inr [\<lparr>offer_id = ascii ''A'', stock = 100\<rparr>, \<lparr>offer_id = ascii ''B'', stock = 0\<rparr>],
          [ascii ''B''])
   \<and> (\<exists>out rest. market_create_stocks (ascii ''2023-12-14T12:00:00Z'')
        [\<lparr>kod = ascii ''A'', kolichestvo = ascii ''>10'', tsena = ascii ''1.00''\<rparr>,
         \<lparr>kod = ascii ''A'', kolichestvo = ascii ''many'', tsena = ascii ''1.00''\<rparr>,
         \<lparr>kod = ascii ''C'', kolichestvo = ascii ''few'', tsena = ascii ''2.00''\<rparr>]
        [ascii ''A'', ascii ''B''] (ascii ''w1'') = (Inr out, rest)
        \<and> length out = 2
        \<and> (\<forall>i\<in>set [ascii ''A'', ascii ''B'']. length (filter (\<lambda>r. sku r = i) out) = 1))"
proof -
  let ?ws = "[\<lparr>kod = ascii ''A'', kolichestvo = ascii ''>10'', tsena = ascii ''1.00''\<rparr>,
         \<lparr>kod = ascii ''A'', kolichestvo = ascii ''many'', tsena = ascii ''1.00''\<rparr>,
         \<lparr>kod = ascii ''C'', kolichestvo = ascii ''few'', tsena = ascii ''2.00''\<rparr>]"
  let ?ids = "[ascii ''A'', ascii ''B'']"
  have d: "distinct ?ids" by (simp add: ascii_def)
  have q: "\<forall>k<length ?ws. kod (?ws ! k) \<in> set ?ids \<and> kod (?ws ! k) \<notin> kod ` set (take k ?ws)
           \<longrightarrow> (\<exists>n. normalize_quantity (kolichestvo (?ws ! k)) = Inr n)"
    by (simp add: less_Suc_eq numeral_3_eq_3 all_conj_distrib ascii_def normalize_quantity_def)
  have e: "seller_create_stocks ?ws ?ids
       = (Inr [\<lparr>offer_id = ascii ''A'', stock = 100\<rparr>, \<lparr>offer_id = ascii ''B'', stock = 0\<rparr>],
          [ascii ''B''])"
    by (simp add: seller_create_stocks_def normalize_quantity_def ascii_def)
  from create_stocks_one_record_each [OF d q, of "ascii ''2023-12-14T12:00:00Z''" "ascii ''w1''"]
  show ?thesis using d e by auto
qed

text \<open>
  A catalog row with a quantity that is no integer literal: \<open>int\<close> raises and no list
  is returned.
\<close>

theorem create_stocks_one_record_each_counterexample:
  "distinct [ascii ''A'']
   \<and> seller_create_stocks
        [\<lparr>kod = ascii ''A'', kolichestvo = ascii ''abc'', tsena = ascii ''1.00''\<rparr>] [ascii ''A'']
       = (Inl ValueError, [ascii ''A''])"
  by (simp add: seller_create_stocks_def normalize_quantity_def ascii_def py_int_def
       to_ascii_def py_isspace_def int_signed_def int_unsigned_def is_ascii_digit_def)

lemma market_create_stocks_returns:
  assumes "market_create_stocks date ws ids wh = (Inr mout, rest)"
  shows "\<exists>out. seller_create_stocks ws ids = (Inr out, rest)
           \<and> mout = map (as_market_stock wh date) out"
proof (cases "fst (seller_create_stocks ws ids)")
  case (Inl e)
  with assms show ?thesis by (simp add: market_create_stocks_seller)
next
  case (Inr out)
  with assms have "mout = map (as_market_stock wh date) out"
    and "snd (seller_create_stocks ws ids) = rest"
    by (simp_all add: market_create_stocks_seller)
  with Inr show ?thesis by (metis prod.collapse)
qed

text \<open>
  C2. Whenever a \<open>create_stocks\<close> returns, its list is the records made from feed rows
  followed by one record of stock 0 (of count 0 in the market shape) for each identifier
  left in \<open>offer_ids\<close>. Every record of the first part carries the code of a feed row; the
  identifiers that are the code of no feed row are all still in \<open>offer_ids\<close>, in the
  order of the catalog. So the record of an identifier that matches no feed row has stock
  0 and comes after all the records made from the feed, in catalog order; for a
  duplicate-free catalog the second part is exactly the unmatched identifiers.
\<close>

theorem create_stocks_zero_for_unmatched:
  "(seller_create_stocks ws ids = (Inr out, rest) \<longrightarrow>
      (\<exists>matched. out = matched @ map (\<lambda>i. \<lparr>offer_id = i, stock = 0\<rparr>) rest
         \<and> (\<forall>r\<in>set matched. offer_id r \<in> kod ` set ws)
         \<and> filter (\<lambda>i. i \<notin> kod ` set ws) rest = filter (\<lambda>i. i \<notin> kod ` set ws) ids
         \<and> (distinct ids \<longrightarrow> rest = filter (\<lambda>i. i \<notin> kod ` set ws) ids)))
   \<and> (market_create_stocks date ws ids warehouse_id = (Inr mout, mrest) \<longrightarrow>
      (\<exists>matched. mout = matched @
            map (\<lambda>i. \<lparr>sku = i, warehouseId = warehouse_id,
                       items = [\<lparr>count = 0, item_type = fit, updatedAt = date\<rparr>]\<rparr>) mrest
         \<and> (\<forall>r\<in>set matched. sku r \<in> kod ` set ws)
         \<and> filter (\<lambda>i. i \<notin> kod ` set ws) mrest = filter (\<lambda>i. i \<notin> kod ` set ws) ids
         \<and> (distinct ids \<longrightarrow> mrest = filter (\<lambda>i. i \<notin> kod ` set ws) ids)))"
proof (intro conjI impI)
  assume "seller_create_stocks ws ids = (Inr out, rest)"
  from seller_create_stocks_shape [OF this]
  show "\<exists>matched. out = matched @ map (\<lambda>i. \<lparr>offer_id = i, stock = 0\<rparr>) rest
         \<and> (\<forall>r\<in>set matched. offer_id r \<in> kod ` set ws)
         \<and> filter (\<lambda>i. i \<notin> kod ` set ws) rest = filter (\<lambda>i. i \<notin> kod ` set ws) ids
         \<and> (distinct ids \<longrightarrow> rest = filter (\<lambda>i. i \<notin> kod ` set ws) ids)"
    by blast
next
  assume "market_create_stocks date ws ids warehouse_id = (Inr mout, mrest)"
  from market_create_stocks_returns [OF this] obtain out where
    o: "seller_create_stocks ws ids = (Inr out, mrest)"
       "mout = map (as_market_stock warehouse_id date) out"
    by blast
  from seller_create_stocks_shape [OF o(1)] obtain matched where
    m: "out = matched @ map (\<lambda>i. \<lparr>offer_id = i, stock = 0\<rparr>) mrest"
       "\<forall>r\<in>set matched. offer_id r \<in> kod ` set ws"
       "filter (\<lambda>i. i \<notin> kod ` set ws) mrest = filter (\<lambda>i. i \<notin> kod ` set ws) ids"
       "distinct ids \<longrightarrow> mrest = filter (\<lambda>i. i \<notin> kod ` set ws) ids"
    by blast
  let ?mm = "map (as_market_stock warehouse_id date) matched"
  have "mout = ?mm @
            map (\<lambda>i. \<lparr>sku = i, warehouseId = warehouse_id,
                       items = [\<lparr>count = 0, item_type = fit, updatedAt = date\<rparr>]\<rparr>) mrest"
    unfolding o(2) m(1) by (simp add: as_market_stock_def o_def)
  moreover have "\<forall>r\<in>set ?mm. sku r \<in> kod ` set ws"
    using m(2) by (simp add: as_market_stock_def)
  ultimately show "\<exists>matched. mout = matched @
            map (\<lambda>i. \<lparr>sku = i, warehouseId = warehouse_id,
                       items = [\<lparr>count = 0, item_type = fit, updatedAt = date\<rparr>]\<rparr>) mrest
         \<and> (\<forall>r\<in>set matched. sku r \<in> kod ` set ws)
         \<and> filter (\<lambda>i. i \<notin> kod ` set ws) mrest = filter (\<lambda>i. i \<notin> kod ` set ws) ids
         \<and> (distinct ids \<longrightarrow> mrest = filter (\<lambda>i. i \<notin> kod ` set ws) ids)"
    using m(3,4) by blast
qed

theorem create_stocks_zero_for_unmatched_witness:
  "seller_create_stocks
      [\<lparr>kod = ascii ''A'', kolichestvo = ascii ''>10'', tsena = ascii ''1'000.00''\<rparr>]
      [ascii ''B'', ascii ''A'', ascii ''C'']
     = (Inr [\<lparr>offer_id = ascii ''A'', stock = 100\<rparr>, \<lparr>offer_id = ascii ''B'', stock = 0\<rparr>,
             \<lparr>offer_id = ascii ''C'', stock = 0\<rparr>],
        [ascii ''B'', ascii ''C''])
   \<and> market_create_stocks (ascii ''2023-12-14T12:00:00Z'')
      [\<lparr>kod = ascii ''A'', kolichestvo = ascii ''>10'', tsena = ascii ''1'000.00''\<rparr>]
      [ascii ''B'', ascii ''A'', ascii ''C''] (ascii ''w1'')
     = (Inr [\<lparr>sku = ascii ''A'', warehouseId = ascii ''w1'',
               items = [\<lparr>count = 100, item_type = fit,
                          updatedAt = ascii ''2023-12-14T12:00:00Z''\<rparr>]\<rparr>,
             \<lparr>sku = ascii ''B'', warehouseId = ascii ''w1'',
               items = [\<lparr>count = 0, item_type = fit,
                          updatedAt = ascii ''2023-12-14T12:00:00Z''\<rparr>]\<rparr>,
             \<lparr>sku = ascii ''C'', warehouseId = ascii ''w1'',
               items = [\<lparr>count = 0, item_type = fit,
                          updatedAt = ascii ''2023-12-14T12:00:00Z''\<rparr>]\<rparr>],
        [ascii ''B'', ascii ''C''])
   \<and> distinct [ascii ''B'', ascii ''A'', ascii ''C'']
   \<and> [ascii ''B'', ascii ''C'']
       = filter (\<lambda>i. i \<notin> kod ` set
           [\<lparr>kod = ascii ''A'', kolichestvo = ascii ''>10'', tsena = ascii ''1'000.00''\<rparr>])
           [ascii ''B'', ascii ''A'', ascii ''C'']"
proof -
  let ?ws = "[\<lparr>kod = ascii ''A'', kolichestvo = ascii ''>10'', tsena = ascii ''1'000.00''\<rparr>]"
  let ?ids = "[ascii ''B'', ascii ''A'', ascii ''C'']"
  let ?date = "ascii ''2023-12-14T12:00:00Z''"
  let ?out = "[\<lparr>offer_id = ascii ''A'', stock = 100\<rparr>, \<lparr>offer_id = ascii ''B'', stock = 0\<rparr>,
             \<lparr>offer_id = ascii ''C'', stock = 0\<rparr>]"
  let ?mout = "[\<lparr>sku = ascii ''A'', warehouseId = ascii ''w1'',
               items = [\<lparr>count = 100, item_type = fit, updatedAt = ?date\<rparr>]\<rparr>,
             \<lparr>sku = ascii ''B'', warehouseId = ascii ''w1'',
               items = [\<lparr>count = 0, item_type = fit, updatedAt = ?date\<rparr>]\<rparr>,
             \<lparr>sku = ascii ''C'', warehouseId = ascii ''w1'',
               items = [\<lparr>count = 0, item_type = fit, updatedAt = ?date\<rparr>]\<rparr>]"
  have d: "distinct ?ids" by (simp add: ascii_def)
  have s: "seller_create_stocks ?ws ?ids = (Inr ?out, [ascii ''B'', ascii ''C''])"
    by (simp add: seller_create_stocks_def normalize_quantity_def ascii_def)
  have m: "market_create_stocks ?date ?ws ?ids (ascii ''w1'') = (Inr ?mout, [ascii ''B'', ascii ''C''])"
    by (simp add: market_create_stocks_def normalize_quantity_def ascii_def)
  from create_stocks_zero_for_unmatched
         [of ?ws ?ids ?out "[ascii ''B'', ascii ''C'']" ?date "ascii ''w1''" ?mout
             "[ascii ''B'', ascii ''C'']"]
       s m d
  show ?thesis by blast
qed

text \<open>
  C3 (as amended). After a \<open>create_stocks\<close> returns, the list \<open>offer_ids\<close> it was given
  still holds every identifier that is the code of no feed row, in the original order;
  for a duplicate-free catalog it holds exactly those. It is empty only if every catalog
  identifier is the code of a feed row: the second loop reads the list and removes
  nothing.
\<close>

theorem create_stocks_leaves_unmatched:
  "(seller_create_stocks ws ids = (Inr out, rest) \<longrightarrow>
      filter (\<lambda>i. i \<notin> kod ` set ws) rest = filter (\<lambda>i. i \<notin> kod ` set ws) ids
      \<and> (distinct ids \<longrightarrow> rest = filter (\<lambda>i. i \<notin> kod ` set ws) ids)
      \<and> (rest = [] \<longrightarrow> set ids \<subseteq> kod ` set ws))
   \<and> (market_create_stocks date ws ids warehouse_id = (Inr mout, mrest) \<longrightarrow>
      filter (\<lambda>i. i \<notin> kod ` set ws) mrest = filter (\<lambda>i. i \<notin> kod ` set ws) ids
      \<and> (distinct ids \<longrightarrow> mrest = filter (\<lambda>i. i \<notin> kod ` set ws) ids)
      \<and> (mrest = [] \<longrightarrow> set ids \<subseteq> kod ` set ws))"
proof -
  have key: "filter (\<lambda>i. i \<notin> kod ` set ws) r = filter (\<lambda>i. i \<notin> kod ` set ws) ids
      \<and> (distinct ids \<longrightarrow> r = filter (\<lambda>i. i \<notin> kod ` set ws) ids)
      \<and> (r = [] \<longrightarrow> set ids \<subseteq> kod ` set ws)"
    if "seller_create_stocks ws ids = (Inr out, r)" for out r
  proof -
    from seller_create_stocks_shape [OF that] have
      f: "filter (\<lambda>i. i \<notin> kod ` set ws) r = filter (\<lambda>i. i \<notin> kod ` set ws) ids"
      and d: "distinct ids \<longrightarrow> r = filter (\<lambda>i. i \<notin> kod ` set ws) ids"
      by blast+
    have "set ids \<subseteq> kod ` set ws" if "r = []"
    proof -
      from f that have "filter (\<lambda>i. i \<notin> kod ` set ws) ids = []" by simp
      then show ?thesis by (auto simp: filter_empty_conv)
    qed
    with f d show ?thesis by blast
  qed
  show ?thesis
    using key market_create_stocks_returns [of date ws ids warehouse_id mout mrest]
    by blast
qed

text \<open>With an empty feed the one catalog identifier is still in the list after the call.\<close>

theorem create_stocks_leaves_unmatched_counterexample:
  "seller_create_stocks [] [ascii ''X''] = (Inr [\<lparr>offer_id = ascii ''X'', stock = 0\<rparr>], [ascii ''X''])
   \<and> snd (seller_create_stocks [] [ascii ''X'']) \<noteq> []"
  by (simp add: seller_create_stocks_def)

theorem create_stocks_leaves_unmatched_witness:
  "seller_create_stocks
      [\<lparr>kod = ascii ''A'', kolichestvo = ascii ''5'', tsena = ascii ''10.00''\<rparr>]
      [ascii ''A'', ascii ''B'']
     = (Inr [\<lparr>offer_id = ascii ''A'', stock = 5\<rparr>, \<lparr>offer_id = ascii ''B'', stock = 0\<rparr>],
        [ascii ''B''])
   \<and> market_create_stocks (ascii ''2023-12-14T12:00:00Z'')
      [\<lparr>kod = ascii ''A'', kolichestvo = ascii ''5'', tsena = ascii ''10.00''\<rparr>]
      [ascii ''A'', ascii ''B''] (ascii ''w1'')
     = (Inr [\<lparr>sku = ascii ''A'', warehouseId = ascii ''w1'',
               items = [\<lparr>count = 5, item_type = fit,
                          updatedAt = ascii ''2023-12-14T12:00:00Z''\<rparr>]\<rparr>,
             \<lparr>sku = ascii ''B'', warehouseId = ascii ''w1'',
               items = [\<lparr>count = 0, item_type = fit,
                          updatedAt = ascii ''2023-12-14T12:00:00Z''\<rparr>]\<rparr>],
        [ascii ''B''])
   \<and> distinct [ascii ''A'', ascii ''B'']
   \<and> [ascii ''B'']
       = filter (\<lambda>i. i \<notin> kod ` set
           [\<lparr>kod = ascii ''A'', kolichestvo = ascii ''5'', tsena = ascii ''10.00''\<rparr>])
           [ascii ''A'', ascii ''B'']"
proof -
  let ?ws = "[\<lparr>kod = ascii ''A'', kolichestvo = ascii ''5'', tsena = ascii ''10.00''\<rparr>]"
  let ?ids = "[ascii ''A'', ascii ''B'']"
  let ?date = "ascii ''2023-12-14T12:00:00Z''"
  let ?out = "[\<lparr>offer_id = ascii ''A'', stock = 5\<rparr>, \<lparr>offer_id = ascii ''B'', stock = 0\<rparr>]"
  let ?mout = "[\<lparr>sku = ascii ''A'', warehouseId = ascii ''w1'',
               items = [\<lparr>count = 5, item_type = fit, updatedAt = ?date\<rparr>]\<rparr>,
             \<lparr>sku = ascii ''B'', warehouseId = ascii ''w1'',
               items = [\<lparr>count = 0, item_type = fit, updatedAt = ?date\<rparr>]\<rparr>]"
  have d: "distinct ?ids" by (simp add: ascii_def)
  have q: "normalize_quantity (ascii ''5'') = Inr 5"
    by (simp add: normalize_quantity_def ascii_def py_int_def to_ascii_def py_isspace_def
          int_signed_def int_unsigned_def is_ascii_digit_def)
  have s: "seller_create_stocks ?ws ?ids = (Inr ?out, [ascii ''B''])"
    by (simp add: seller_create_stocks_def q)
  have m: "market_create_stocks ?date ?ws ?ids (ascii ''w1'') = (Inr ?mout, [ascii ''B''])"
    by (simp add: market_create_stocks_def q)
  from create_stocks_leaves_unmatched
         [of ?ws ?ids ?out "[ascii ''B'']" ?date "ascii ''w1''" ?mout "[ascii ''B'']"]
       s m d
  show ?thesis by blast
qed

section \<open>Properties of create_prices\<close>

lemma seller_prices_loop_eq:
  "seller_prices_loop ws acc ids
     = (acc @ map seller_price_of (filter (\<lambda>w. kod w \<in> set ids) ws), ids)"
  by (induction ws arbitrary: acc) (simp_all add: seller_price_of_def)

lemma py_int_price_conversion:
  "py_int (price_conversion s)
     = (if price_conversion s = [] then Inl ValueError
        else Inr (base10_value (price_conversion s)))"
proof (cases "price_conversion s = []")
  case True
  then show ?thesis by (simp add: py_int_empty)
next
  case False
  have "\<forall>c\<in>set (price_conversion s). is_ascii_digit c"
    by (simp add: price_conversion_takeWhile)
  from py_int_all_digits [OF False this] False show ?thesis by simp
qed

lemma market_prices_loop_eq:
  "market_prices_loop ws acc ids
     = (if \<forall>w\<in>set ws. kod w \<in> set ids \<longrightarrow> price_conversion (tsena w) \<noteq> []
        then Inr (acc @ map market_price_of (filter (\<lambda>w. kod w \<in> set ids) ws))
        else Inl ValueError,
        ids)"
  by (induction ws arbitrary: acc)
     (auto simp: py_int_price_conversion market_price_of_def)

lemma price_conversion_empty_iff:
  "price_conversion s = [] \<longleftrightarrow> (\<forall>c\<in>set (takeWhile (\<lambda>c. c \<noteq> dot) s). \<not> is_ascii_digit c)"
  by (simp add: price_conversion_takeWhile filter_empty_conv)

text \<open>
  C8. Both \<open>create_prices\<close> leave the list \<open>offer_ids\<close> as they got it, whether they return
  or raise. The seller variant returns one entry for each feed row whose code is in the
  catalog, in feed order, and so does the market variant when it returns; hence no entry
  carries an identifier that is the code of no feed row.
\<close>

theorem create_prices_frame:
  "snd (seller_create_prices ws ids) = ids
   \<and> fst (seller_create_prices ws ids) = map seller_price_of (filter (\<lambda>w. kod w \<in> set ids) ws)
   \<and> (\<forall>i. i \<notin> kod ` set ws \<longrightarrow>
         (\<forall>r\<in>set (fst (seller_create_prices ws ids)). price_offer_id r \<noteq> i))
   \<and> snd (market_create_prices ws ids) = ids
   \<and> (\<forall>out. fst (market_create_prices ws ids) = Inr out \<longrightarrow>
         out = map market_price_of (filter (\<lambda>w. kod w \<in> set ids) ws)
         \<and> (\<forall>i. i \<notin> kod ` set ws \<longrightarrow> (\<forall>r\<in>set out. price_id r \<noteq> i)))"
proof -
  have s: "seller_create_prices ws ids
             = (map seller_price_of (filter (\<lambda>w. kod w \<in> set ids) ws), ids)"
    by (simp add: seller_create_prices_def seller_prices_loop_eq)
  have sn: "\<forall>i. i \<notin> kod ` set ws \<longrightarrow>
         (\<forall>r\<in>set (map seller_price_of (filter (\<lambda>w. kod w \<in> set ids) ws)). price_offer_id r \<noteq> i)"
    by (auto simp: seller_price_of_def)
  have m: "snd (market_create_prices ws ids) = ids"
    by (simp add: market_create_prices_def market_prices_loop_eq)
  have mo: "out = map market_price_of (filter (\<lambda>w. kod w \<in> set ids) ws)"
    if "fst (market_create_prices ws ids) = Inr out" for out
    using that by (simp add: market_create_prices_def market_prices_loop_eq split: if_splits)
  have mn: "\<forall>i. i \<notin> kod ` set ws \<longrightarrow>
         (\<forall>r\<in>set (map market_price_of (filter (\<lambda>w. kod w \<in> set ids) ws)). price_id r \<noteq> i)"
    by (auto simp: market_price_of_def)
  show ?thesis
    using s sn m mo mn by (simp only: fst_conv snd_conv) blast
qed

theorem create_prices_frame_witness:
  "ascii ''B'' \<notin> kod ` set [\<lparr>kod = ascii ''A'', kolichestvo = ascii ''>10'', tsena = ascii ''1'000.00''\<rparr>]
   \<and> seller_create_prices
        [\<lparr>kod = ascii ''A'', kolichestvo = ascii ''>10'', tsena = ascii ''1'000.00''\<rparr>]
        [ascii ''A'', ascii ''B'']
      = ([\<lparr>auto_action_enabled = ascii ''UNKNOWN'', currency_code = ascii ''RUB'',
            price_offer_id = ascii ''A'', old_price = ascii ''0'', price = ascii ''1000''\<rparr>],
         [ascii ''A'', ascii ''B''])
   \<and> market_create_prices
        [\<lparr>kod = ascii ''A'', kolichestvo = ascii ''>10'', tsena = ascii ''1'000.00''\<rparr>]
        [ascii ''A'', ascii ''B'']
      = (Inr [\<lparr>price_id = ascii ''A'',
                price_of = \<lparr>price_value = 1000, currencyId = ascii ''RUR''\<rparr>\<rparr>],
         [ascii ''A'', ascii ''B''])"
proof -
  let ?ws = "[\<lparr>kod = ascii ''A'', kolichestvo = ascii ''>10'', tsena = ascii ''1'000.00''\<rparr>]"
  let ?ids = "[ascii ''A'', ascii ''B'']"
  have n: "ascii ''B'' \<notin> kod ` set ?ws" by (simp add: ascii_def)
  have p: "price_conversion (ascii ''1'000.00'') = ascii ''1000''"
    by (simp add: price_conversion_takeWhile ascii_def dot_def is_ascii_digit_def)
  have v: "base10_value (ascii ''1000'') = 1000"
    by (simp add: base10_value_def ascii_def)
  have f: "filter (\<lambda>w. kod w \<in> set ?ids) ?ws = ?ws" by simp
  have nz: "ascii ''1000'' \<noteq> []" by (simp add: ascii_def)
  have mi: "fst (market_create_prices ?ws ?ids)
        = Inr [\<lparr>price_id = ascii ''A'',
                price_of = \<lparr>price_value = 1000, currencyId = ascii ''RUR''\<rparr>\<rparr>]"
  proof -
    have "py_int (ascii ''1000'') = Inr 1000"
      using py_int_price_conversion [of "ascii ''1'000.00''"] by (simp add: p v nz)
    then show ?thesis by (simp add: market_create_prices_def p)
  qed
  from create_prices_frame [of ?ws ?ids] mi
  have "seller_create_prices ?ws ?ids = (map seller_price_of ?ws, ?ids)"
    and "snd (market_create_prices ?ws ?ids) = ?ids"
    by (simp_all only: f prod_eq_iff fst_conv snd_conv)
  with mi n show ?thesis
    by (simp add: seller_price_of_def p prod_eq_iff)
qed

text \<open>
  C10. The market \<open>create_prices\<close> raises ValueError exactly when some feed row with a
  code in the catalog has a price that converts to the empty text, which happens exactly
  when no ASCII digit stands before the first decimal point. For each such row the seller
  \<open>create_prices\<close>, which cannot raise, returns an entry for that code whose price is the
  empty text.
\<close>

theorem create_prices_empty_price:
  "((\<exists>w\<in>set ws. kod w \<in> set ids \<and> price_conversion (tsena w) = [])
      \<longleftrightarrow> fst (market_create_prices ws ids) = Inl ValueError)
   \<and> (\<forall>w\<in>set ws. kod w \<in> set ids \<and> price_conversion (tsena w) = [] \<longrightarrow>
         (\<exists>r\<in>set (fst (seller_create_prices ws ids)). price_offer_id r = kod w \<and> price r = []))
   \<and> (price_conversion s = []
         \<longleftrightarrow> (\<forall>c\<in>set (takeWhile (\<lambda>c. c \<noteq> dot) s). \<not> is_ascii_digit c))"
proof -
  have a: "(\<exists>w\<in>set ws. kod w \<in> set ids \<and> price_conversion (tsena w) = [])
      \<longleftrightarrow> fst (market_create_prices ws ids) = Inl ValueError"
    by (auto simp: market_create_prices_def market_prices_loop_eq)
  have c: "\<exists>r\<in>set (fst (seller_create_prices ws ids)). price_offer_id r = kod w \<and> price r = []"
    if "w \<in> set ws" "kod w \<in> set ids" "price_conversion (tsena w) = []" for w
  proof -
    have "seller_price_of w \<in> set (fst (seller_create_prices ws ids))"
      using that(1,2) by (simp add: seller_create_prices_def seller_prices_loop_eq)
    moreover have "price_offer_id (seller_price_of w) = kod w \<and> price (seller_price_of w) = []"
      using that(3) by (simp add: seller_price_of_def)
    ultimately show ?thesis by blast
  qed
  from a c price_conversion_empty_iff [of s] show ?thesis by blast
qed

theorem create_prices_empty_price_witness:
  "price_conversion [] = []
   \<and> fst (market_create_prices
        [\<lparr>kod = ascii ''A'', kolichestvo = ascii ''3'', tsena = []\<rparr>] [ascii ''A''])
      = Inl ValueError
   \<and> seller_create_prices
        [\<lparr>kod = ascii ''A'', kolichestvo = ascii ''3'', tsena = []\<rparr>] [ascii ''A'']
      = ([\<lparr>auto_action_enabled = ascii ''UNKNOWN'', currency_code = ascii ''RUB'',
            price_offer_id = ascii ''A'', old_price = ascii ''0'', price = []\<rparr>],
         [ascii ''A''])"
proof -
  let ?ws = "[\<lparr>kod = ascii ''A'', kolichestvo = ascii ''3'', tsena = []\<rparr>]"
  have p: "price_conversion [] = []" by (simp add: price_conversion_takeWhile)
  have h: "\<exists>w\<in>set ?ws. kod w \<in> set [ascii ''A''] \<and> price_conversion (tsena w) = []"
    by (simp add: p)
  have s: "seller_create_prices ?ws [ascii ''A'']
      = ([\<lparr>auto_action_enabled = ascii ''UNKNOWN'', currency_code = ascii ''RUB'',
            price_offer_id = ascii ''A'', old_price = ascii ''0'', price = []\<rparr>],
         [ascii ''A''])"
    by (simp add: seller_create_prices_def p)
  from create_prices_empty_price [of ?ws "[ascii ''A'']"] h
  have "fst (market_create_prices ?ws [ascii ''A'']) = Inl ValueError" by blast
  with p s show ?thesis by blast
qed

section \<open>Properties of divide\<close>

lemma range_len_up:
  assumes "0 < n"
  shows "range_len 0 (int L) n = (if L = 0 then 0 else (L - 1) div nat n + 1)"
proof (cases "L = 0")
  case True
  then show ?thesis by (simp add: range_len_def)
next
  case False
  then have "int L - 1 = int (L - 1)" by simp
  moreover have "n = int (nat n)" using assms by simp
  ultimately have "(int L - 1) div n = int ((L - 1) div nat n)"
    by (metis zdiv_int)
  then show ?thesis using False assms by (simp add: range_len_def nat_add_distrib)
qed

lemma py_slice_chunk:
  assumes "0 < n"
  shows "py_slice S (int k * n) (int k * n + n) = take (nat n) (drop (k * nat n) S)"
proof -
  have a: "nat (int k * n) = k * nat n" using assms by (simp add: nat_mult_distrib)
  have b: "nat (int k * n + n) = k * nat n + nat n"
    using assms by (simp add: nat_add_distrib nat_mult_distrib)
  have nn: "\<not> int k * n < 0" "\<not> int k * n + n < 0" using assms by (auto simp: not_less)
  have "py_slice S (int k * n) (int k * n + n)
        = take (min (k * nat n + nat n) (length S) - min (k * nat n) (length S))
            (drop (min (k * nat n) (length S)) S)"
    by (simp add: py_slice_def slice_bound_def nn a b Let_def)
  also have "\<dots> = take (nat n) (drop (k * nat n) S)"
  proof (cases "k * nat n \<le> length S")
    case True
    then have "min (k * nat n) (length S) = k * nat n" by simp
    moreover have "take (min (k * nat n + nat n) (length S) - k * nat n) (drop (k * nat n) S)
        = take (nat n) (drop (k * nat n) S)"
      by (cases "k * nat n + nat n \<le> length S") simp_all
    ultimately show ?thesis by simp
  next
    case False
    then show ?thesis by simp
  qed
  finally show ?thesis .
qed

lemma divide_chunks:
  assumes "0 < n"
  shows "divide_list S n
     = Inr (map (\<lambda>k. take (nat n) (drop (k * nat n) S))
              [0..<(if length S = 0 then 0 else (length S - 1) div nat n + 1)])"
proof -
  have "n \<noteq> 0" using assms by simp
  then show ?thesis
    by (simp add: divide_list_def py_range_def range_len_up [OF assms] py_slice_chunk [OF assms]
          o_def del: upt_Suc)
qed

lemma concat_chunks: "concat (map (\<lambda>k. take N (drop (k * N) S)) [0..<m]) = take (m * N) S"
proof (induction m)
  case 0
  then show ?case by simp
next
  case (Suc m)
  have "take (m * N + N) S = take (m * N) S @ take N (drop (m * N) S)"
    by (rule take_add)
  moreover have "Suc m * N = m * N + N" by simp
  ultimately have "take (Suc m * N) S = take (m * N) S @ take N (drop (m * N) S)"
    by (simp only:)
  with Suc show ?case by simp
qed

lemma butlast_upt0: "butlast [0..<m] = [0..<m - 1]"
  by (cases m) simp_all

lemma chunk_count_bounds:
  fixes N L :: nat
  assumes "0 < N" and "0 < L"
  shows "((L - 1) div N) * N < L" and "L \<le> ((L - 1) div N + 1) * N"
proof -
  have "((L - 1) div N) * N \<le> L - 1" by simp
  with assms(2) show "((L - 1) div N) * N < L" by linarith
  have "L - 1 < ((L - 1) div N + 1) * N"
    using dividend_less_div_times [OF assms(1), of "L - 1"] by simp
  with assms(2) show "L \<le> ((L - 1) div N + 1) * N" by linarith
qed

text \<open>
  C6. For every list and every size \<open>n > 0\<close>, \<open>divide_list\<close> returns chunks whose
  concatenation in order is the list; every chunk but the last has exactly \<open>n\<close>
  elements, every chunk (the last too) is non-empty and has at most \<open>n\<close> elements, and
  there is no chunk at all exactly when the list is empty.
\<close>

theorem divide_chunks_spec:
  assumes "0 < n"
  shows "\<exists>chunks. divide_list S n = Inr chunks
           \<and> concat chunks = S
           \<and> (\<forall>c\<in>set (butlast chunks). int (length c) = n)
           \<and> (\<forall>c\<in>set chunks. c \<noteq> [] \<and> int (length c) \<le> n)
           \<and> (chunks = [] \<longleftrightarrow> S = [])
           \<and> divide_list ([] :: 'a list) n = Inr []"
proof (cases "S = []")
  case True
  then show ?thesis using assms by (simp add: divide_chunks)
next
  case False
  define N where "N = nat n"
  define L where "L = length S"
  define m where "m = (L - 1) div N + 1"
  define f where "f = (\<lambda>k. take N (drop (k * N) S))"
  have N: "0 < N" using assms by (simp add: N_def)
  have L: "0 < L" using False by (simp add: L_def)
  have d: "divide_list S n = Inr (map f [0..<m])"
    using False by (simp add: divide_chunks [OF assms] N_def L_def m_def f_def)
  have lo: "(m - 1) * N < L" and hi: "L \<le> m * N"
    using chunk_count_bounds [OF N L] by (simp_all add: m_def)
  have c: "concat (map f [0..<m]) = S"
    using hi by (simp add: f_def concat_chunks L_def)
  have len: "length (f k) = min N (L - k * N)" for k
    by (simp add: f_def L_def)
  have full: "int (length c) = n" if "c \<in> set (butlast (map f [0..<m]))" for c
  proof -
    from that obtain k where k: "k < m - 1" "c = f k"
      by (auto simp: map_butlast [symmetric] butlast_upt0 simp del: upt_Suc)
    then have "Suc k \<le> m - 1" by simp
    then have "Suc k * N \<le> (m - 1) * N" by (rule mult_le_mono1)
    from this lo have "Suc k * N < L" by (rule le_less_trans)
    then have "k * N + N \<le> L" by simp
    then have "length c = N" by (simp add: k(2) len)
    then show ?thesis using assms by (simp add: N_def)
  qed
  have some: "c \<noteq> [] \<and> int (length c) \<le> n" if "c \<in> set (map f [0..<m])" for c
  proof -
    from that obtain k where k: "k < m" "c = f k" by auto
    then have "k \<le> m - 1" by simp
    then have "k * N \<le> (m - 1) * N" by (rule mult_le_mono1)
    from this lo have "k * N < L" by (rule le_less_trans)
    then have "0 < length c" "length c \<le> N" using N by (simp_all add: k(2) len)
    then show ?thesis using assms by (auto simp: N_def)
  qed
  have ne: "map f [0..<m] \<noteq> []" by (simp add: m_def)
  have e: "divide_list ([] :: 'a list) n = Inr []"
    using assms by (simp add: divide_chunks)
  from d c full some ne e False show ?thesis by blast
qed

theorem divide_chunks_spec_witness:
  "(0::int) < 2
   \<and> divide_list [1, 2, 3, 4, 5 :: nat] 2 = Inr [[1, 2], [3, 4], [5]]
   \<and> concat [[1, 2], [3, 4], [5 :: nat]] = [1, 2, 3, 4, 5]
   \<and> map length (butlast [[1, 2], [3, 4], [5 :: nat]]) = [2, 2]
   \<and> map length [[1, 2], [3, 4], [5 :: nat]] = [2, 2, 1]"
proof -
  have p: "(0::int) < 2" by simp
  have e: "divide_list [1, 2, 3, 4, 5 :: nat] 2 = Inr [[1, 2], [3, 4], [5]]"
    by (simp add: divide_list_def py_range_def range_len_def py_slice_def slice_bound_def upt_rec)
  from divide_chunks_spec [OF p, of "[1, 2, 3, 4, 5 :: nat]"] e
  have "concat [[1, 2], [3, 4], [5 :: nat]] = [1, 2, 3, 4, 5]" by auto
  with p e show ?thesis by simp
qed

text \<open>
  C7 (as amended). With size 0 \<open>divide_list\<close> raises ValueError (the specification's
  InvalidArgument) for every list, the empty one too, once the generator is consumed:
  \<open>range\<close> refuses the zero step. With a negative size nothing is raised: the range
  from 0 up to the length is empty for a negative step, so no chunk is produced, whatever
  the list holds.
\<close>

theorem divide_nonpositive:
  "divide_list S 0 = Inl ValueError \<and> (n < 0 \<longrightarrow> divide_list S n = Inr [])"
  by (simp add: divide_list_def py_range_def range_len_def)

theorem divide_nonpositive_witness:
  "(- 1 :: int) < 0 \<and> divide_list [1, 2, 3 :: nat] (- 1) = Inr []
   \<and> divide_list [1, 2, 3 :: nat] 0 = Inl ValueError"
  using divide_nonpositive [of "[1, 2, 3 :: nat]" "- 1"] by simp

text \<open>A negative size on a list of three elements, and on the empty list: no error, no chunk.\<close>

theorem divide_nonpositive_counterexample:
  "divide_list [1, 2, 3 :: nat] (- 1) = Inr [] \<and> divide_list ([] :: nat list) (- 2) = Inr []"
  by (simp add: divide_list_def py_range_def range_len_def)

section \<open>Properties of get_offer_ids\<close>

lemma fetched_Suc: "fetched ps (Suc k) = fetched ps k @ page_items (ps k)"
  by (simp add: fetched_def)

lemma offer_ids_loop_stop:
  assumes "get_product_list k cur = Inr p"
    and "page_total p = int (length (acc @ page_items p))"
  shows "offer_ids_loop get_product_list k cur acc = Some (Inr (acc @ page_items p))"
  using assms by (subst offer_ids_loop.simps) simp

lemma offer_ids_loop_continue:
  assumes "get_product_list k cur = Inr p"
    and "page_total p \<noteq> int (length (acc @ page_items p))"
  shows "offer_ids_loop get_product_list k cur acc
           = offer_ids_loop get_product_list (Suc k) (last_id p) (acc @ page_items p)"
  using assms by (subst offer_ids_loop.simps) simp

lemma offer_ids_loop_run:
  assumes fetch: "\<forall>j\<le>m. get_product_list j (cs j) = Inr (ps j)"
    and cursor: "\<forall>j<m. cs (Suc j) = last_id (ps j)"
    and more: "\<forall>j<m. page_total (ps j) \<noteq> int (length (fetched ps (Suc j)))"
    and stop: "page_total (ps m) = int (length (fetched ps (Suc m)))"
  shows "k \<le> m \<Longrightarrow>
         offer_ids_loop get_product_list k (cs k) (fetched ps k) = Some (Inr (fetched ps (Suc m)))"
proof (induction "m - k" arbitrary: k)
  case 0
  then have k: "k = m" by simp
  have f: "get_product_list m (cs m) = Inr (ps m)" using fetch by simp
  have s: "page_total (ps m) = int (length (fetched ps m @ page_items (ps m)))"
    using stop by (simp add: fetched_Suc)
  have "offer_ids_loop get_product_list m (cs m) (fetched ps m)
          = Some (Inr (fetched ps m @ page_items (ps m)))"
    using f s by (rule offer_ids_loop_stop)
  then show ?case by (simp add: k fetched_Suc)
next
  case (Suc d)
  then have k: "k < m" by simp
  have f: "get_product_list k (cs k) = Inr (ps k)" using fetch k by simp
  have s: "page_total (ps k) \<noteq> int (length (fetched ps k @ page_items (ps k)))"
    using more k by (simp add: fetched_Suc)
  have c: "last_id (ps k) = cs (Suc k)" using cursor k by simp
  have "offer_ids_loop get_product_list k (cs k) (fetched ps k)
          = offer_ids_loop get_product_list (Suc k) (last_id (ps k))
              (fetched ps k @ page_items (ps k))"
    using f s by (rule offer_ids_loop_continue)
  also have "\<dots> = offer_ids_loop get_product_list (Suc k) (cs (Suc k)) (fetched ps (Suc k))"
    by (simp add: c fetched_Suc)
  also have "\<dots> = Some (Inr (fetched ps (Suc m)))"
  proof (rule Suc.hyps(1))
    show "d = m - Suc k" using Suc.hyps(2) by simp
    show "Suc k \<le> m" using k by simp
  qed
  finally show ?case .
qed

lemma get_offer_ids_first_match:
  assumes "cs 0 = []"
    and "\<forall>j\<le>m. get_product_list j (cs j) = Inr (ps j)"
    and "\<forall>j<m. cs (Suc j) = last_id (ps j)"
    and "\<forall>j<m. page_total (ps j) \<noteq> int (length (fetched ps (Suc j)))"
    and "page_total (ps m) = int (length (fetched ps (Suc m)))"
  shows "get_offer_ids get_product_list
           = Some (Inr (map product_offer_id (fetched ps (Suc m))))"
proof -
  have "offer_ids_loop get_product_list 0 (cs 0) (fetched ps 0)
          = Some (Inr (fetched ps (Suc m)))"
    using assms(2-5) by (rule offer_ids_loop_run) simp
  then show ?thesis
    by (simp add: get_offer_ids_def assms(1) fetched_def)
qed

text \<open>
  C9. Take any run of the outside world: cursors \<open>cs\<close> and pages \<open>ps\<close> such that the first
  cursor is the empty text, the call number \<open>j\<close> made with \<open>cs j\<close> answers \<open>ps j\<close>, and each
  page hands over the next cursor, all this up to a call \<open>n\<close> at which the number of
  items fetched so far equals the total that page reports. Then \<open>get_offer_ids\<close> returns:
  it goes on while the count differs from the reported total (so, while it is less),
  stops at the first call \<open>m\<close> where the two are equal, and returns the \<open>offer_id\<close> of
  every item of the pages 0 to \<open>m\<close>, in the order fetched.
\<close>

theorem get_offer_ids_count_based:
  assumes start: "cs 0 = []"
    and fetch: "\<forall>j\<le>n. get_product_list j (cs j) = Inr (ps j)"
    and cursor: "\<forall>j<n. cs (Suc j) = last_id (ps j)"
    and reach: "page_total (ps n) = int (length (fetched ps (Suc n)))"
  shows "\<exists>m\<le>n. page_total (ps m) = int (length (fetched ps (Suc m)))
           \<and> (\<forall>j<m. page_total (ps j) \<noteq> int (length (fetched ps (Suc j))))
           \<and> get_offer_ids get_product_list
               = Some (Inr (map product_offer_id (fetched ps (Suc m))))"
proof -
  define P where "P = (\<lambda>j. page_total (ps j) = int (length (fetched ps (Suc j))))"
  define m where "m = (LEAST j. P j)"
  have Pn: "P n" using reach by (simp add: P_def)
  then have Pm: "P m" unfolding m_def by (rule LeastI)
  have mn: "m \<le> n" unfolding m_def using Pn by (rule Least_le)
  have before: "\<forall>j<m. \<not> P j" unfolding m_def by (auto dest: not_less_Least)
  have f: "\<forall>j\<le>m. get_product_list j (cs j) = Inr (ps j)" using fetch mn by simp
  have c: "\<forall>j<m. cs (Suc j) = last_id (ps j)" using cursor mn by simp
  have d: "\<forall>j<m. page_total (ps j) \<noteq> int (length (fetched ps (Suc j)))"
    using before by (simp add: P_def)
  have e: "page_total (ps m) = int (length (fetched ps (Suc m)))"
    using Pm by (simp add: P_def)
  from start f c d e
  have "get_offer_ids get_product_list = Some (Inr (map product_offer_id (fetched ps (Suc m))))"
    by (rule get_offer_ids_first_match)
  with mn d e show ?thesis by blast
qed

theorem get_offer_ids_count_based_witness:
  "get_offer_ids two_page_server = Some (Inr [ascii ''A'', ascii ''B'', ascii ''C''])"
proof -
  define cs :: "nat \<Rightarrow> pystr" where "cs = (\<lambda>j. if j = 0 then [] else ascii ''B'')"
  define ps :: "nat \<Rightarrow> page" where
    "ps = (\<lambda>j. if j = 0 then
        \<lparr>page_items = [\<lparr>product_offer_id = ascii ''A''\<rparr>, \<lparr>product_offer_id = ascii ''B''\<rparr>],
             page_total = 3, last_id = ascii ''B''\<rparr>
       else \<lparr>page_items = [\<lparr>product_offer_id = ascii ''C''\<rparr>], page_total = 3, last_id = ascii ''C''\<rparr>)"
  have ne: "ascii ''B'' \<noteq> []" by (simp add: ascii_def)
  have a: "cs 0 = []" by (simp add: cs_def)
  have b: "\<forall>j\<le>1. two_page_server j (cs j) = Inr (ps j)"
    by (simp add: cs_def ps_def two_page_server_def ne le_Suc_eq)
  have c: "\<forall>j<1. cs (Suc j) = last_id (ps j)"
    by (simp add: cs_def ps_def)
  have e: "page_total (ps 1) = int (length (fetched ps (Suc 1)))"
    by (simp add: ps_def fetched_def)
  have z: "page_total (ps 0) \<noteq> int (length (fetched ps (Suc 0)))"
    by (simp add: ps_def fetched_def)
  from get_offer_ids_count_based [of cs 1 two_page_server ps] a b c e
  obtain m where m: "m \<le> 1" "page_total (ps m) = int (length (fetched ps (Suc m)))"
    "get_offer_ids two_page_server = Some (Inr (map product_offer_id (fetched ps (Suc m))))"
    by blast
  from m(1,2) z have "m = 1" by (cases m) auto
  with m(3) show ?thesis by (simp add: fetched_def ps_def)
qed

end
